theory Spec2Isabelle
  imports Complex_Main "HOL-Library.AList" "HOL-Library.Sublist"
begin

section \<open>Text primitives of the host language\<close>

text \<open>
  A text is a \<^typ>\<open>string\<close>; each character stands for the code point of the same
  number, so the model covers texts whose code points lie below 256. On that range the
  definitions below follow Python's \<^verbatim>\<open>str\<close> methods: \<^verbatim>\<open>isspace\<close>, \<^verbatim>\<open>strip\<close>,
  \<^verbatim>\<open>split\<close> without argument, \<^verbatim>\<open>lower\<close>, \<^verbatim>\<open>upper\<close>, \<^verbatim>\<open>startswith\<close>,
  \<^verbatim>\<open>endswith\<close>, \<^verbatim>\<open>join\<close>, \<^verbatim>\<open>splitlines\<close>, \<^verbatim>\<open>find\<close> and \<^verbatim>\<open>rfind\<close>.
\<close>

definition isspace :: "char \<Rightarrow> bool" where
  "isspace c = ((of_char c :: nat) \<in> {9, 10, 11, 12, 13, 28, 29, 30, 31, 32, 133, 160})"

definition strip :: "string \<Rightarrow> string" where
  "strip s = rev (dropWhile isspace (rev (dropWhile isspace s)))"

text \<open>
  \<^verbatim>\<open>s.split()\<close>: the maximal runs of non-whitespace characters, in order. The first
  argument of \<open>split_from\<close> is the word being read.
\<close>

fun split_from :: "string \<Rightarrow> string \<Rightarrow> string list" where
  "split_from w [] = (if w = [] then [] else [w])"
| "split_from w (c # cs) =
     (if isspace c then (if w = [] then split_from [] cs else w # split_from [] cs)
      else split_from (w @ [c]) cs)"

definition split :: "string \<Rightarrow> string list" where
  "split s = split_from [] s"

fun join :: "string \<Rightarrow> string list \<Rightarrow> string" where
  "join sep [] = []"
| "join sep [x] = x"
| "join sep (x # y # ys) = x @ sep @ join sep (y # ys)"

definition lower_char :: "char \<Rightarrow> char" where
  "lower_char c =
     (let n = (of_char c :: nat)
      in if (65 \<le> n \<and> n \<le> 90) \<or> (192 \<le> n \<and> n \<le> 222 \<and> n \<noteq> 215)
         then char_of (n + 32) else c)"

definition lower :: "string \<Rightarrow> string" where
  "lower s = map lower_char s"

text \<open>
  \<^verbatim>\<open>upper\<close> maps the sharp s (223) to two letters. The capitals of the micro sign (181)
  and of y with diaeresis (255) lie above 255; those two characters are left as they
  are, which, like their capitals, are no ASCII letters.
\<close>

definition upper_char :: "char \<Rightarrow> string" where
  "upper_char c =
     (let n = (of_char c :: nat)
      in if (97 \<le> n \<and> n \<le> 122) \<or> (224 \<le> n \<and> n \<le> 254 \<and> n \<noteq> 247)
         then [char_of (n - 32)]
         else if n = 223 then ''SS'' else [c])"

definition upper :: "string \<Rightarrow> string" where
  "upper s = concat (map upper_char s)"

definition startswith :: "string \<Rightarrow> string \<Rightarrow> bool" where
  "startswith s p = (take (length p) s = p)"

text \<open>\<^verbatim>\<open>s.startswith(ps)\<close> with a tuple of prefixes.\<close>

definition startswith_any :: "string \<Rightarrow> string list \<Rightarrow> bool" where
  "startswith_any s ps = list_ex (startswith s) ps"

definition endswith :: "string \<Rightarrow> string \<Rightarrow> bool" where
  "endswith s p = (length p \<le> length s \<and> drop (length s - length p) s = p)"

definition linebreak :: "char \<Rightarrow> bool" where
  "linebreak c = ((of_char c :: nat) \<in> {10, 11, 12, 13, 28, 29, 30, 133})"

text \<open>
  \<^verbatim>\<open>s.splitlines()\<close>: a carriage return followed by a line feed ends one line, every
  other line break ends one line, and a last line without line break counts when it is
  not empty.
\<close>

fun splitlines_from :: "string \<Rightarrow> string \<Rightarrow> string list" where
  "splitlines_from cur [] = (if cur = [] then [] else [cur])"
| "splitlines_from cur [c] = (if linebreak c then [cur] else [cur @ [c]])"
| "splitlines_from cur (c # d # cs) =
     (if c = CHR 0x0D \<and> d = CHR 0x0A then cur # splitlines_from [] cs
      else if linebreak c then cur # splitlines_from [] (d # cs)
      else splitlines_from (cur @ [c]) (d # cs))"

definition splitlines :: "string \<Rightarrow> string list" where
  "splitlines s = splitlines_from [] s"

text \<open>\<^verbatim>\<open>s.find(c)\<close> and \<^verbatim>\<open>s.rfind(c)\<close> for a single character: an index, or -1.\<close>

definition find_char :: "string \<Rightarrow> char \<Rightarrow> int" where
  "find_char s c =
     (if c \<in> set s then int (length (takeWhile (\<lambda>x. x \<noteq> c) s)) else - 1)"

definition rfind_char :: "string \<Rightarrow> char \<Rightarrow> int" where
  "rfind_char s c =
     (if c \<in> set s then int (length s) - 1 - int (length (takeWhile (\<lambda>x. x \<noteq> c) (rev s)))
      else - 1)"

text \<open>
  \<^verbatim>\<open>s[i:j]\<close> for \<open>0 \<le> i\<close> and \<open>0 \<le> j\<close>. The program's other slices are
  \<^verbatim>\<open>words[:boundary]\<close> and \<^verbatim>\<open>words[boundary:]\<close> with \<open>0 \<le> boundary\<close>, written with
  \<^const>\<open>take\<close> and \<^const>\<open>drop\<close>.
\<close>

definition slice :: "'a list \<Rightarrow> int \<Rightarrow> int \<Rightarrow> 'a list" where
  "slice xs i j = take (nat j - nat i) (drop (nat i) xs)"

section \<open>Utilities\<close>

text \<open>
  \<^verbatim>\<open>int(len(words) * 0.75)\<close>: three quarters of a natural number is computed exactly
  in double precision for every length a text can have, and \<^verbatim>\<open>int\<close> drops the
  fraction of a non-negative number, so the result is the integer quotient.
\<close>

definition approx_token_count :: "string \<Rightarrow> int" where
  "approx_token_count text = (let words = split (strip text) in (3 * int (length words)) div 4)"

section \<open>Chunker (answers only)\<close>

text \<open>
  The clock \<^verbatim>\<open>now_ts()\<close> is read where the source reads it and passed in as a real
  number of seconds.
\<close>

record ChunkBuffer =
  overlap_tokens :: int
  token_target :: int
  token_max :: int
  last_activity_ts :: real
  buffer :: "string list"

text \<open>Each method returns its result (\<open>None\<close> for Python's \<^verbatim>\<open>None\<close>) and the buffer after it.\<close>

definition flush_chunk :: "ChunkBuffer \<Rightarrow> string option \<times> ChunkBuffer" where
  "flush_chunk cb =
     (if buffer cb = [] then (None, cb)
      else
        let full_text = strip (join '' '' (buffer cb));
            words = split full_text
        in if int (length words) \<le> overlap_tokens cb
           then (Some full_text, cb\<lparr>buffer := []\<rparr>)
           else
             let boundary = max 0 (int (length words) - overlap_tokens cb);
                 chunk_text = strip (join '' '' (take (nat boundary) words));
                 overlap_text = strip (join '' '' (drop (nat boundary) words))
             in (Some chunk_text,
                 cb\<lparr>buffer := (if overlap_text \<noteq> [] then [overlap_text] else [])\<rparr>))"

definition force_flush_chunk :: "ChunkBuffer \<Rightarrow> string option \<times> ChunkBuffer" where
  "force_flush_chunk cb =
     (if buffer cb = [] then (None, cb)
      else
        let full_text = strip (join '' '' (buffer cb))
        in (Some full_text, cb\<lparr>buffer := []\<rparr>))"

definition add :: "real \<Rightarrow> string \<Rightarrow> ChunkBuffer \<Rightarrow> string option \<times> ChunkBuffer" where
  "add now text cb =
     (let cb1 = cb\<lparr>buffer := buffer cb @ [strip text]\<rparr>;
          cb2 = cb1\<lparr>last_activity_ts := now\<rparr>;
          tokens = approx_token_count (join '' '' (buffer cb2))
      in if tokens \<ge> token_target cb2 then flush_chunk cb2
         else if tokens \<ge> token_max cb2 then force_flush_chunk cb2
         else (None, cb2))"

definition flush_if_idle :: "real \<Rightarrow> int \<Rightarrow> ChunkBuffer \<Rightarrow> string option \<times> ChunkBuffer" where
  "flush_if_idle now idle_seconds cb =
     (if now - last_activity_ts cb > real_of_int idle_seconds \<and> buffer cb \<noteq> []
      then flush_chunk cb else (None, cb))"

text \<open>
  Which branch of the conditional in \<^verbatim>\<open>add\<close> is taken for a token count: the first
  test calls \<^verbatim>\<open>flush_chunk\<close> (soft flush), the second \<^verbatim>\<open>force_flush_chunk\<close> (hard
  flush), and otherwise nothing is flushed.
\<close>

datatype flush_kind = SoftFlush | HardFlush | NoFlush

definition add_branch :: "ChunkBuffer \<Rightarrow> int \<Rightarrow> flush_kind" where
  "add_branch cb tokens =
     (if tokens \<ge> token_target cb then SoftFlush
      else if tokens \<ge> token_max cb then HardFlush
      else NoFlush)"

text \<open>The buffer after the first two statements of \<^verbatim>\<open>add\<close>, and the count it computes.\<close>

definition appended :: "real \<Rightarrow> string \<Rightarrow> ChunkBuffer \<Rightarrow> ChunkBuffer" where
  "appended now text cb = cb\<lparr>buffer := buffer cb @ [strip text], last_activity_ts := now\<rparr>"

definition add_tokens :: "string \<Rightarrow> ChunkBuffer \<Rightarrow> int" where
  "add_tokens text cb = approx_token_count (join '' '' (buffer cb @ [strip text]))"

text \<open>
  A sequence of \<^verbatim>\<open>add\<close> calls, each with the clock value it reads: the results in
  order and the final buffer; and the statement that the count computed in each call
  of the sequence stays below \<^verbatim>\<open>token_target\<close>.
\<close>

fun add_all :: "ChunkBuffer \<Rightarrow> (real \<times> string) list \<Rightarrow> string option list \<times> ChunkBuffer" where
  "add_all cb [] = ([], cb)"
| "add_all cb ((now, text) # calls) =
     (let (r, cb1) = add now text cb;
          (rs, cb2) = add_all cb1 calls
      in (r # rs, cb2))"

fun below_target :: "ChunkBuffer \<Rightarrow> (real \<times> string) list \<Rightarrow> bool" where
  "below_target cb [] = True"
| "below_target cb ((now, text) # calls) =
     (add_tokens text cb < token_target cb \<and> below_target (snd (add now text cb)) calls)"

text \<open>
  The three ways the orchestrator calls the chunker: \<^verbatim>\<open>process_utterance\<close> adds an answer,
  \<^verbatim>\<open>idle_check\<close> polls with \<^verbatim>\<open>IDLE_FLUSH_SECONDS\<close>, and \<^verbatim>\<open>force_flush\<close> drains the
  buffer at the end of the stream. \<open>call_branch\<close> names the flush a call performs.
\<close>

definition IDLE_FLUSH_SECONDS :: int where
  "IDLE_FLUSH_SECONDS = 20"

datatype chunker_call = Add real string | IdleCheck real | ForceFlush

fun run_call :: "chunker_call \<Rightarrow> ChunkBuffer \<Rightarrow> string option \<times> ChunkBuffer" where
  "run_call (Add now text) cb = add now text cb"
| "run_call (IdleCheck now) cb = flush_if_idle now IDLE_FLUSH_SECONDS cb"
| "run_call ForceFlush cb = force_flush_chunk cb"

fun call_branch :: "chunker_call \<Rightarrow> ChunkBuffer \<Rightarrow> flush_kind" where
  "call_branch (Add now text) cb = add_branch cb (add_tokens text cb)"
| "call_branch (IdleCheck now) cb =
     (if now - last_activity_ts cb > real_of_int IDLE_FLUSH_SECONDS \<and> buffer cb \<noteq> []
      then SoftFlush else NoFlush)"
| "call_branch ForceFlush cb = HardFlush"

fun before_flush :: "chunker_call \<Rightarrow> ChunkBuffer \<Rightarrow> ChunkBuffer" where
  "before_flush (Add now text) cb = appended now text cb"
| "before_flush (IdleCheck now) cb = cb"
| "before_flush ForceFlush cb = cb"

text \<open>The tokens of the pending concatenation.\<close>

definition pending_tokens :: "ChunkBuffer \<Rightarrow> string list" where
  "pending_tokens cb = split (join '' '' (buffer cb))"

text \<open>A token is a non-empty text without whitespace.\<close>

definition token :: "string \<Rightarrow> bool" where
  "token w = (w \<noteq> [] \<and> list_all (\<lambda>c. \<not> isspace c) w)"

section \<open>Global process memory schema\<close>

text \<open>
  JSON values as \<^verbatim>\<open>json.loads\<close> returns them. A dictionary is an association list
  with distinct keys in insertion order, read with \<^const>\<open>map_of\<close>.
\<close>

datatype json =
    JNull
  | JBool bool
  | JInt int
  | JFloat real
  | JStr string
  | JArr "json list"
  | JObj "(string \<times> json) list"

type_synonym dict = "(string \<times> json) list"

text \<open>\<^verbatim>\<open>d.get(k, v)\<close>\<close>

definition dict_get :: "dict \<Rightarrow> string \<Rightarrow> json \<Rightarrow> json" where
  "dict_get d k v = (case map_of d k of Some x \<Rightarrow> x | None \<Rightarrow> v)"

text \<open>
  \<^verbatim>\<open>d.update(e)\<close>: the entries of \<open>e\<close> in order, each replacing the value of a key
  that is present and appended otherwise.
\<close>

definition dict_update :: "dict \<Rightarrow> dict \<Rightarrow> dict" where
  "dict_update d e = fold (\<lambda>(k, v). AList.update k v) e d"

text \<open>
  Python's truth value of a JSON value, as \<^verbatim>\<open>or\<close> tests it. The non-finite floats
  that \<^verbatim>\<open>json.loads\<close> also accepts are not represented.
\<close>

fun truthy :: "json \<Rightarrow> bool" where
  "truthy JNull = False"
| "truthy (JBool b) = b"
| "truthy (JInt n) = (n \<noteq> 0)"
| "truthy (JFloat x) = (x \<noteq> 0)"
| "truthy (JStr s) = (s \<noteq> [])"
| "truthy (JArr xs) = (xs \<noteq> [])"
| "truthy (JObj d) = (d \<noteq> [])"

definition empty_process_memory :: dict where
  "empty_process_memory =
     [(''title'', JNull),
      (''overview'', JStr []),
      (''actors'', JArr []),
      (''inputs'', JArr []),
      (''outputs'', JArr []),
      (''preconditions'', JArr []),
      (''postconditions'', JArr []),
      (''main_flow'', JArr []),
      (''alternate_paths'', JArr []),
      (''exceptions'', JArr []),
      (''business_rules'', JArr []),
      (''tools_systems'', JArr []),
      (''metrics_slas'', JArr []),
      (''risks_controls'', JArr []),
      (''glossary'', JArr []),
      (''open_questions'', JArr []),
      (''assumptions'', JArr [])]"

section \<open>LLM helpers\<close>

text \<open>
  The prompt constants stand for their fixed texts. The chat service and the \<^verbatim>\<open>json\<close>
  library are not part of the program and are parameters of the model:
  \<^item> \<open>complete\<close> is \<^verbatim>\<open>client.chat.completions.create(...)\<close> followed by
    \<^verbatim>\<open>resp.choices[0].message.content\<close>: \<open>Inl\<close> when the call or the access raises,
    otherwise the content, \<open>None\<close> when the message has none;
  \<^item> \<open>loads\<close> is \<^verbatim>\<open>json.loads\<close>, \<open>None\<close> when it raises;
  \<^item> \<open>dumps\<close> is \<^verbatim>\<open>json.dumps(_, ensure_ascii=False, indent=2)\<close>.
\<close>

datatype system_prompt = CHUNK_EXTRACT_SYSTEM | MERGE_SYSTEM | FINAL_DOC_SYSTEM | CLASSIFY_SYSTEM

datatype error = CompletionError | AttributeError

record ports =
  complete :: "system_prompt \<Rightarrow> string \<Rightarrow> error + string option"
  loads :: "string \<Rightarrow> json option"
  dumps :: "json \<Rightarrow> string"

text \<open>
  The text handed to \<^verbatim>\<open>json.loads\<close>: the content, or \<^verbatim>\<open>{}\<close> when it is missing or
  empty, stripped, and without its code-fence lines when it starts with a fence.
\<close>

definition fence :: string where
  "fence = [CHR 0x60, CHR 0x60, CHR 0x60]"

definition response_text :: "string option \<Rightarrow> string" where
  "response_text resp_content =
     (let content = (case resp_content of None \<Rightarrow> ''{}'' | Some c \<Rightarrow> if c = [] then ''{}'' else c);
          text = strip content
      in if startswith text fence
         then join [CHR 0x0A]
                (filter (\<lambda>line. \<not> startswith (strip line) fence) (splitlines text))
         else text)"

definition llm_json_completion :: "ports \<Rightarrow> system_prompt \<Rightarrow> string \<Rightarrow> error + json" where
  "llm_json_completion p system_prompt user_prompt =
     (case complete p system_prompt user_prompt of
        Inl e \<Rightarrow> Inl e
      | Inr resp_content \<Rightarrow>
          let text = response_text resp_content
          in case loads p text of
               Some j \<Rightarrow> Inr j
             | None \<Rightarrow>
                 let start = find_char text (CHR 0x7B);
                     fin = rfind_char text (CHR 0x7D)
                 in if start \<noteq> - 1 \<and> fin \<noteq> - 1 \<and> fin > start
                    then (case loads p (slice text start (fin + 1)) of
                            Some j \<Rightarrow> Inr j
                          | None \<Rightarrow> Inr (JObj []))
                    else Inr (JObj []))"

text \<open>
  A response content that \<^verbatim>\<open>json.loads\<close> rejects both as a whole and, when the text has an
  opening brace before its last closing brace, from the one to the other.
\<close>

definition unparseable :: "ports \<Rightarrow> string option \<Rightarrow> bool" where
  "unparseable p resp_content =
     (let text = response_text resp_content;
          start = find_char text (CHR 0x7B);
          fin = rfind_char text (CHR 0x7D)
      in loads p text = None
         \<and> (start \<noteq> - 1 \<and> fin \<noteq> - 1 \<and> fin > start \<longrightarrow>
              loads p (slice text start (fin + 1)) = None))"

section \<open>Q/A classification\<close>

datatype role = QUESTION | ANSWER

definition q_starts :: "string list" where
  "q_starts =
     [''how '', ''what '', ''when '', ''where '', ''why '', ''who '', ''which '', ''can '',
      ''could '', ''would '', ''do '', ''does '', ''did '', ''please explain'',
      ''walk me through'']"

definition heuristic_role_classify :: "string \<Rightarrow> role" where
  "heuristic_role_classify text =
     (let t = lower (strip text)
      in if t = [] then ANSWER
         else if endswith t ''?'' then QUESTION
         else if startswith_any t q_starts then QUESTION
         else if startswith_any t
                   [''describe '', ''outline '', ''explain '', ''detail '', ''tell me '']
              then QUESTION
         else ANSWER)"

text \<open>
  \<^verbatim>\<open>ROLE_CLASSIFIER_MODE\<close> is read from the environment and passed in. In the other
  branch \<^verbatim>\<open>res.get\<close> raises on a value that is no dictionary and \<^verbatim>\<open>.upper()\<close> on a
  value that is no string.
\<close>

definition classify_role :: "ports \<Rightarrow> string \<Rightarrow> string \<Rightarrow> error + role" where
  "classify_role p ROLE_CLASSIFIER_MODE text =
     (if ROLE_CLASSIFIER_MODE = ''heuristic'' then Inr (heuristic_role_classify text)
      else case llm_json_completion p CLASSIFY_SYSTEM text of
             Inl e \<Rightarrow> Inl e
           | Inr res \<Rightarrow>
               (case res of
                  JObj d \<Rightarrow>
                    (let got = (case map_of d ''role'' of None \<Rightarrow> JNull | Some v \<Rightarrow> v);
                         r = (if truthy got then got else JStr ''ANSWER'')
                     in case r of
                          JStr s \<Rightarrow> Inr (if upper s = ''QUESTION'' then QUESTION else ANSWER)
                        | _ \<Rightarrow> Inl AttributeError)
                | _ \<Rightarrow> Inl AttributeError))"

text \<open>
  The classifier as the specification words it, on the text as given: the words of the
  two fixed sets, and "starts with" as prefix.
\<close>

definition interrogative_words :: "string list" where
  "interrogative_words =
     [''how'', ''what'', ''when'', ''where'', ''why'', ''who'', ''which'', ''can'', ''could'',
      ''would'', ''do'', ''does'', ''did'', ''please explain'', ''walk me through'']"

definition imperative_verbs :: "string list" where
  "imperative_verbs = [''describe'', ''outline'', ''explain'', ''detail'', ''tell me'']"

definition spec_heuristic_role :: "string \<Rightarrow> role" where
  "spec_heuristic_role text =
     (if text = [] then ANSWER
      else if last text = CHR ''?'' then QUESTION
      else if list_ex (\<lambda>w. prefix w text) interrogative_words then QUESTION
      else if list_ex (\<lambda>w. prefix w text) imperative_verbs then QUESTION
      else ANSWER)"

text \<open>
  The same wording read on the trimmed, lower-cased text, with a space required after
  each entry except the two interrogative phrases.
\<close>

definition followed_by_space :: "string list" where
  "followed_by_space =
     [''how'', ''what'', ''when'', ''where'', ''why'', ''who'', ''which'', ''can'', ''could'',
      ''would'', ''do'', ''does'', ''did'']"

definition spaced_heuristic_role :: "string \<Rightarrow> role" where
  "spaced_heuristic_role text =
     (let t = lower (strip text)
      in if t = [] then ANSWER
         else if last t = CHR ''?'' then QUESTION
         else if list_ex (\<lambda>w. prefix (w @ '' '') t) followed_by_space
                 \<or> prefix ''please explain'' t \<or> prefix ''walk me through'' t then QUESTION
         else if list_ex (\<lambda>w. prefix (w @ '' '') t) imperative_verbs then QUESTION
         else ANSWER)"

section \<open>Merge models\<close>

definition merge_prompt :: "ports \<Rightarrow> dict \<Rightarrow> json \<Rightarrow> string" where
  "merge_prompt p a b =
     ''Model A:'' @ [CHR 0x0A] @ dumps p (JObj a) @ [CHR 0x0A, CHR 0x0A] @ ''Model B:''
       @ [CHR 0x0A] @ dumps p b"

definition merge_models :: "ports \<Rightarrow> dict \<Rightarrow> json \<Rightarrow> error + dict" where
  "merge_models p a b =
     (let user_prompt = merge_prompt p a b
      in case llm_json_completion p MERGE_SYSTEM user_prompt of
           Inl e \<Rightarrow> Inl e
         | Inr merged \<Rightarrow>
             let base = empty_process_memory
             in (case merged of
                   JObj m \<Rightarrow> Inr (dict_update base (map (\<lambda>(k, v). (k, dict_get m k v)) base))
                 | _ \<Rightarrow> Inl AttributeError))"

section \<open>Stand-ins for the external services\<close>

text \<open>
  Concrete ports for evaluating the program on examples: a chat service that answers
  every request with a fixed content or always raises, and a parser that knows the texts
  used in the examples and rejects every other text.
\<close>

definition example_loads :: "string \<Rightarrow> json option" where
  "example_loads s =
     (if s = ''{}'' then Some (JObj [])
      else if s = ''[]'' then Some (JArr [])
      else if s = ''{'' @ [CHR 0x22] @ ''overview'' @ [CHR 0x22] @ '': '' @ [CHR 0x22]
                  @ ''Refunds'' @ [CHR 0x22] @ ''}''
           then Some (JObj [(''overview'', JStr ''Refunds'')])
      else None)"

definition answering :: "string option \<Rightarrow> ports" where
  "answering content =
     \<lparr>complete = (\<lambda>_ _. Inr content), loads = example_loads, dumps = (\<lambda>_. [])\<rparr>"

definition failing :: ports where
  "failing = \<lparr>complete = (\<lambda>_ _. Inl CompletionError), loads = example_loads, dumps = (\<lambda>_. [])\<rparr>"

section \<open>Properties of the text primitives\<close>

lemma strip_Nil: "strip [] = []"
  by (simp add: strip_def)

lemma split_from_ws: "list_all isspace ws \<Longrightarrow> split_from [] ws = []"
  by (induction ws) simp_all

lemma split_from_append_ws:
  "list_all isspace ws \<Longrightarrow> split_from w (s @ ws) = split_from w s"
proof (induction s arbitrary: w)
  case Nil
  then show ?case by (cases ws) (simp_all add: split_from_ws)
next
  case (Cons c s)
  then show ?case by simp
qed

lemma split_from_dropWhile: "split_from [] (dropWhile isspace s) = split_from [] s"
  by (induction s) simp_all

lemma rstrip_decomp: "rev (dropWhile P (rev s)) @ rev (takeWhile P (rev s)) = s"
proof -
  have "rev (takeWhile P (rev s) @ dropWhile P (rev s)) = s" by simp
  then show ?thesis by (simp only: rev_append)
qed

lemma split_from_rstrip: "split_from w (rev (dropWhile isspace (rev s))) = split_from w s"
proof -
  have "list_all isspace (rev (takeWhile isspace (rev s)))"
    by (simp add: list_all_iff) (meson set_takeWhileD)
  then have "split_from w (rev (dropWhile isspace (rev s)) @ rev (takeWhile isspace (rev s)))
             = split_from w (rev (dropWhile isspace (rev s)))"
    by (rule split_from_append_ws)
  then show ?thesis by (simp only: rstrip_decomp)
qed

lemma split_strip: "split (strip s) = split s"
  by (simp add: split_def strip_def split_from_rstrip split_from_dropWhile)

lemma split_from_tokens:
  "list_all (\<lambda>c. \<not> isspace c) w \<Longrightarrow> t \<in> set (split_from w s) \<Longrightarrow> token t"
proof (induction s arbitrary: w)
  case Nil
  then show ?case by (cases "w = []") (simp_all add: token_def)
next
  case (Cons c cs)
  show ?case
  proof (cases "isspace c")
    case False
    with Cons.prems have "list_all (\<lambda>c. \<not> isspace c) (w @ [c])"
      and "t \<in> set (split_from (w @ [c]) cs)"
      by simp_all
    then show ?thesis by (rule Cons.IH)
  next
    case True
    have e: "list_all (\<lambda>c. \<not> isspace c) ([]::string)" by simp
    show ?thesis
    proof (cases "w = []")
      case True
      with \<open>isspace c\<close> Cons.prems have "t \<in> set (split_from [] cs)" by simp
      with e show ?thesis by (rule Cons.IH)
    next
      case False
      with \<open>isspace c\<close> Cons.prems have "t = w \<or> t \<in> set (split_from [] cs)" by simp
      then show ?thesis
      proof
        assume "t = w"
        with False Cons.prems(1) show ?thesis by (simp add: token_def)
      next
        assume "t \<in> set (split_from [] cs)"
        with e show ?thesis by (rule Cons.IH)
      qed
    qed
  qed
qed

lemma split_tokens: "list_all token (split s)"
proof -
  have "\<And>t. t \<in> set (split s) \<Longrightarrow> token t"
    using split_from_tokens [of "[]" _ s] by (simp add: split_def)
  then show ?thesis by (simp add: list_all_iff)
qed

lemma strip_id:
  assumes "s \<noteq> [] \<Longrightarrow> \<not> isspace (hd s) \<and> \<not> isspace (last s)"
  shows "strip s = s"
proof (cases s)
  case Nil
  then show ?thesis by (simp add: strip_def)
next
  case (Cons c cs)
  with assms have h: "\<not> isspace (hd s)" and l: "\<not> isspace (last s)" by simp_all
  from h Cons have 1: "dropWhile isspace s = s" by simp
  from Cons have n: "rev s \<noteq> []" by simp
  from l n have "\<not> isspace (hd (rev s))" by (simp add: hd_rev)
  with n have 2: "dropWhile isspace (rev s) = rev s" by (cases "rev s") simp_all
  show ?thesis by (simp add: strip_def 1 2)
qed

lemma token_ends: "token t \<Longrightarrow> t \<noteq> [] \<and> \<not> isspace (hd t) \<and> \<not> isspace (last t)"
proof -
  assume t: "token t"
  then have n: "t \<noteq> []" and a: "\<forall>c\<in>set t. \<not> isspace c"
    by (simp_all add: token_def list_all_iff)
  from n have "hd t \<in> set t" and "last t \<in> set t" by simp_all
  with a n show ?thesis by blast
qed

lemma join_tokens_ends:
  "ts \<noteq> [] \<Longrightarrow> list_all token ts \<Longrightarrow>
   join sep ts \<noteq> [] \<and> \<not> isspace (hd (join sep ts)) \<and> \<not> isspace (last (join sep ts))"
proof (induction sep ts rule: join.induct)
  case (1 sep)
  then show ?case by simp
next
  case (2 sep x)
  then show ?case using token_ends [of x] by simp
next
  case (3 sep x y ys)
  then have "join sep (y # ys) \<noteq> []" and "\<not> isspace (last (join sep (y # ys)))" by simp_all
  moreover from 3 have "x \<noteq> []" and "\<not> isspace (hd x)" using token_ends [of x] by simp_all
  ultimately show ?case by simp
qed

lemma strip_join_tokens: "list_all token ts \<Longrightarrow> strip (join sep ts) = join sep ts"
proof (cases "ts = []")
  case True
  then show ?thesis by (simp add: strip_Nil)
next
  case False
  assume "list_all token ts"
  with False show ?thesis by (intro strip_id) (simp add: join_tokens_ends)
qed

lemma join_tokens_Nil: "list_all token ts \<Longrightarrow> (join sep ts = []) = (ts = [])"
  using join_tokens_ends [of ts sep] by (cases "ts = []") simp_all

lemma split_from_token_prefix:
  "list_all (\<lambda>c. \<not> isspace c) t \<Longrightarrow> split_from w (t @ s) = split_from (w @ t) s"
  by (induction t arbitrary: w) simp_all

lemma isspace_space: "isspace (CHR '' '')"
  by (simp add: isspace_def)

lemma split_from_join_tokens:
  "list_all token ts \<Longrightarrow> split_from [] (join '' '' ts) = ts"
proof (induction ts rule: induct_list012)
  case 1
  then show ?case by simp
next
  case (2 x)
  then have "split_from [] (x @ []) = split_from ([] @ x) []"
    by (intro split_from_token_prefix) (simp add: token_def)
  with 2 show ?case by (simp add: token_def)
next
  case (3 x y ys)
  then have x: "x \<noteq> []" "list_all (\<lambda>c. \<not> isspace c) x" by (simp_all add: token_def)
  have "split_from [] (x @ '' '' @ join '' '' (y # ys)) = split_from ([] @ x) ('' '' @ join '' '' (y # ys))"
    using x(2) by (rule split_from_token_prefix)
  also have "\<dots> = x # split_from [] (join '' '' (y # ys))"
    using x(1) by (simp add: isspace_space)
  also have "\<dots> = x # y # ys" using 3 by simp
  finally show ?case by simp
qed

lemma split_join_tokens: "list_all token ts \<Longrightarrow> split (join '' '' ts) = ts"
  by (simp add: split_def split_from_join_tokens)

section \<open>The soft flush\<close>

lemma pending_tokens_strip: "split (strip (join '' '' (buffer cb))) = pending_tokens cb"
  by (simp add: pending_tokens_def split_strip)

lemma tokens_take: "list_all token ts \<Longrightarrow> list_all token (take n ts)"
  by (auto simp: list_all_iff dest: in_set_takeD)

lemma tokens_drop: "list_all token ts \<Longrightarrow> list_all token (drop n ts)"
  by (auto simp: list_all_iff dest: in_set_dropD)

lemma pending_tokens_tokens: "list_all token (pending_tokens cb)"
  by (simp add: pending_tokens_def split_tokens)

lemma flush_chunk_short:
  assumes "buffer cb \<noteq> []" and "int (length (pending_tokens cb)) \<le> overlap_tokens cb"
  shows "flush_chunk cb = (Some (strip (join '' '' (buffer cb))), cb\<lparr>buffer := []\<rparr>)"
  using assms by (simp add: flush_chunk_def Let_def pending_tokens_strip)

lemma flush_chunk_long:
  assumes "buffer cb \<noteq> []" and "int (length (pending_tokens cb)) > overlap_tokens cb"
  shows "flush_chunk cb =
           (Some (join '' '' (take (nat (int (length (pending_tokens cb)) - overlap_tokens cb))
                                (pending_tokens cb))),
            cb\<lparr>buffer :=
                 (if drop (nat (int (length (pending_tokens cb)) - overlap_tokens cb))
                       (pending_tokens cb) \<noteq> []
                  then [join '' '' (drop (nat (int (length (pending_tokens cb)) - overlap_tokens cb))
                                     (pending_tokens cb))]
                  else [])\<rparr>)"
proof -
  let ?T = "pending_tokens cb"
  let ?b = "nat (int (length ?T) - overlap_tokens cb)"
  from assms(2) have m: "max 0 (int (length ?T) - overlap_tokens cb) = int (length ?T) - overlap_tokens cb"
    by simp
  have t: "strip (join '' '' (take ?b ?T)) = join '' '' (take ?b ?T)"
    by (intro strip_join_tokens tokens_take pending_tokens_tokens)
  have d: "strip (join '' '' (drop ?b ?T)) = join '' '' (drop ?b ?T)"
    by (intro strip_join_tokens tokens_drop pending_tokens_tokens)
  have e: "(join '' '' (drop ?b ?T) = []) = (drop ?b ?T = [])"
    by (intro join_tokens_Nil tokens_drop pending_tokens_tokens)
  from assms show ?thesis
    unfolding flush_chunk_def Let_def pending_tokens_strip m t d e
    by (simp del: drop_eq_Nil drop_eq_Nil2)
qed

lemma flush_chunk_retains:
  assumes "0 < overlap_tokens cb" and "overlap_tokens cb < int (length (pending_tokens cb))"
  shows "flush_chunk cb =
           (Some (join '' '' (take (length (pending_tokens cb) - nat (overlap_tokens cb))
                                (pending_tokens cb))),
            cb\<lparr>buffer := [join '' '' (drop (length (pending_tokens cb) - nat (overlap_tokens cb))
                                        (pending_tokens cb))]\<rparr>)"
proof -
  let ?T = "pending_tokens cb"
  let ?n = "overlap_tokens cb"
  from assms have ne: "buffer cb \<noteq> []"
    by (auto simp: pending_tokens_def split_def)
  from assms have b: "nat (int (length ?T) - ?n) = length ?T - nat ?n" by linarith
  from assms have "length ?T - nat ?n < length ?T" by linarith
  then have "drop (length ?T - nat ?n) ?T \<noteq> []" by simp
  with flush_chunk_long [OF ne assms(2)] show ?thesis unfolding b by simp
qed

lemma flush_chunk_drains:
  assumes "overlap_tokens cb \<le> 0" and "overlap_tokens cb < int (length (pending_tokens cb))"
    and "buffer cb \<noteq> []"
  shows "flush_chunk cb = (Some (join '' '' (pending_tokens cb)), cb\<lparr>buffer := []\<rparr>)"
proof -
  from assms have "length (pending_tokens cb)
                   \<le> nat (int (length (pending_tokens cb)) - overlap_tokens cb)"
    by linarith
  with flush_chunk_long [OF assms(3) assms(2)] show ?thesis by simp
qed

lemma flush_chunk_empty: "buffer cb = [] \<Longrightarrow> flush_chunk cb = (None, cb)"
  by (simp add: flush_chunk_def)

text \<open>
  Claim C2. Let \<open>T\<close> be the tokens of the pending concatenation and \<open>n\<close> the configured
  overlap. With \<open>0 < n < |T|\<close> the soft flush emits the first \<open>|T| - n\<close> tokens joined by
  single spaces and leaves the last \<open>n\<close> tokens, joined by single spaces, as the only
  pending segment. With \<open>|T| \<le> n\<close> and something pending it emits the entire trimmed
  text and empties the buffer. The two remaining cases are the degenerate ones: with an
  overlap of zero or less there is nothing to retain, every token is emitted and the buffer
  is empty afterwards; on an empty buffer nothing is emitted.
\<close>

theorem flush_chunk_overlap_law:
  "let T = pending_tokens cb; n = overlap_tokens cb
   in (0 < n \<and> n < int (length T) \<longrightarrow>
         flush_chunk cb =
           (Some (join '' '' (take (length T - nat n) T)),
            cb\<lparr>buffer := [join '' '' (drop (length T - nat n) T)]\<rparr>))
    \<and> (n \<le> 0 \<and> n < int (length T) \<and> buffer cb \<noteq> [] \<longrightarrow>
         flush_chunk cb = (Some (join '' '' T), cb\<lparr>buffer := []\<rparr>))
    \<and> (int (length T) \<le> n \<and> buffer cb \<noteq> [] \<longrightarrow>
         flush_chunk cb = (Some (strip (join '' '' (buffer cb))), cb\<lparr>buffer := []\<rparr>))
    \<and> (buffer cb = [] \<longrightarrow> flush_chunk cb = (None, cb))"
  unfolding Let_def
  using flush_chunk_retains [of cb] flush_chunk_drains [of cb] flush_chunk_short [of cb]
    flush_chunk_empty [of cb]
  by blast

theorem flush_chunk_overlap_law_witness:
  "flush_chunk \<lparr>overlap_tokens = 1, token_target = 4, token_max = 6, last_activity_ts = 0,
                buffer = [''the customer calls'', ''support  now'']\<rparr>
   = (Some ''the customer calls support'',
      \<lparr>overlap_tokens = 1, token_target = 4, token_max = 6, last_activity_ts = 0,
       buffer = [''now'']\<rparr>)"
  using flush_chunk_overlap_law
    [of "\<lparr>overlap_tokens = 1, token_target = 4, token_max = 6, last_activity_ts = 0,
          buffer = [''the customer calls'', ''support  now'']\<rparr>"]
  by (simp add: pending_tokens_def split_def isspace_def Let_def)

section \<open>Adding to the buffer\<close>

lemma add_unfold:
  "add now text cb =
     (if add_tokens text cb \<ge> token_target cb then flush_chunk (appended now text cb)
      else if add_tokens text cb \<ge> token_max cb then force_flush_chunk (appended now text cb)
      else (None, appended now text cb))"
  by (simp add: add_def appended_def add_tokens_def Let_def)

lemma add_by_branch:
  "add now text cb =
     (case add_branch cb (add_tokens text cb) of
        SoftFlush \<Rightarrow> flush_chunk (appended now text cb)
      | HardFlush \<Rightarrow> force_flush_chunk (appended now text cb)
      | NoFlush \<Rightarrow> (None, appended now text cb))"
  by (simp add: add_unfold add_branch_def)

lemma run_call_by_branch:
  "run_call c cb =
     (case call_branch c cb of
        SoftFlush \<Rightarrow> flush_chunk (before_flush c cb)
      | HardFlush \<Rightarrow> force_flush_chunk (before_flush c cb)
      | NoFlush \<Rightarrow> (None, before_flush c cb))"
  by (cases c) (simp_all add: add_by_branch flush_if_idle_def split: flush_kind.split)

text \<open>
  Claim C4. When \<open>token_target \<le> token_max\<close>, the conditional of \<^verbatim>\<open>add\<close> never takes its
  hard-flush branch: \<^verbatim>\<open>add\<close> returns the soft flush of the buffer with the new text
  appended when the count reaches \<^verbatim>\<open>token_target\<close> and nothing otherwise, so a count that
  reaches \<^verbatim>\<open>token_max\<close> is soft-flushed, overlap retained; and among the calls the
  orchestrator makes, only \<^verbatim>\<open>force_flush\<close> performs a hard flush.
\<close>

theorem add_never_hard_flushes:
  assumes "token_target cb \<le> token_max cb"
  shows "add_branch cb (add_tokens text cb) \<noteq> HardFlush
       \<and> add now text cb =
           (if add_tokens text cb \<ge> token_target cb then flush_chunk (appended now text cb)
            else (None, appended now text cb))
       \<and> (add_tokens text cb \<ge> token_max cb \<longrightarrow>
            add now text cb = flush_chunk (appended now text cb))
       \<and> (call_branch c cb = HardFlush \<longrightarrow> c = ForceFlush)"
proof -
  from assms have "call_branch c cb = HardFlush \<longrightarrow> c = ForceFlush"
    by (cases c) (simp_all add: add_branch_def)
  with assms show ?thesis by (simp add: add_unfold add_branch_def)
qed

theorem add_never_hard_flushes_witness:
  "add 5 ''a b c d e''
     \<lparr>overlap_tokens = 1, token_target = 2, token_max = 3, last_activity_ts = 0, buffer = []\<rparr>
   = flush_chunk
       \<lparr>overlap_tokens = 1, token_target = 2, token_max = 3, last_activity_ts = 5,
        buffer = [''a b c d e'']\<rparr>
   \<and> add_tokens ''a b c d e''
       \<lparr>overlap_tokens = 1, token_target = 2, token_max = 3, last_activity_ts = 0, buffer = []\<rparr>
     = 3"
  using add_never_hard_flushes
    [of "\<lparr>overlap_tokens = 1, token_target = 2, token_max = 3, last_activity_ts = 0,
          buffer = []\<rparr>" "''a b c d e''" 5]
  by (simp add: add_tokens_def approx_token_count_def appended_def strip_def split_def
      isspace_def Let_def)

lemma add_below_target:
  assumes "token_target cb \<le> token_max cb" and "add_tokens text cb < token_target cb"
  shows "add now text cb = (None, appended now text cb)"
  using assms by (simp add: add_unfold)

lemma add_all_below_target:
  "token_target cb \<le> token_max cb \<Longrightarrow> below_target cb calls \<Longrightarrow>
   add_all cb calls =
     (replicate (length calls) None,
      cb\<lparr>buffer := buffer cb @ map (strip \<circ> snd) calls,
         last_activity_ts := (if calls = [] then last_activity_ts cb else fst (last calls))\<rparr>)"
proof (induction calls arbitrary: cb)
  case Nil
  then show ?case by simp
next
  case (Cons call calls)
  obtain now u where call: "call = (now, u)" by (cases call)
  from Cons.prems call have lt: "add_tokens u cb < token_target cb" by simp
  with Cons.prems(1) have a: "add now u cb = (None, appended now u cb)"
    by (rule add_below_target)
  from Cons.prems(2) call a have b: "below_target (appended now u cb) calls" by simp
  from Cons.prems(1) have i: "token_target (appended now u cb) \<le> token_max (appended now u cb)"
    by (simp add: appended_def)
  from Cons.IH [OF i b] a call show ?case
    by (simp add: appended_def)
qed

text \<open>
  Claim C5. On a buffer with \<open>token_target \<le> token_max\<close> (the invariant of the chunk buffer),
  a sequence of \<^verbatim>\<open>add\<close> calls in which the approximate token count of the pending
  concatenation stays below \<^verbatim>\<open>token_target\<close> returns nothing at every call, and the
  trimmed texts accumulate in the buffer.
\<close>

theorem add_below_target_emits_nothing:
  assumes "token_target cb \<le> token_max cb" and "below_target cb calls"
  shows "fst (add_all cb calls) = replicate (length calls) None
       \<and> buffer (snd (add_all cb calls)) = buffer cb @ map (strip \<circ> snd) calls"
  using add_all_below_target [OF assms] by simp

theorem add_below_target_emits_nothing_witness:
  "below_target
     \<lparr>overlap_tokens = 1, token_target = 4, token_max = 6, last_activity_ts = 0, buffer = []\<rparr>
     [(1, ''the customer''), (2, '' calls support '')]
   \<and> fst (add_all
       \<lparr>overlap_tokens = 1, token_target = 4, token_max = 6, last_activity_ts = 0, buffer = []\<rparr>
       [(1, ''the customer''), (2, '' calls support '')]) = [None, None]
   \<and> buffer (snd (add_all
       \<lparr>overlap_tokens = 1, token_target = 4, token_max = 6, last_activity_ts = 0, buffer = []\<rparr>
       [(1, ''the customer''), (2, '' calls support '')])) = [''the customer'', ''calls support'']"
proof -
  let ?cb = "\<lparr>overlap_tokens = 1, token_target = 4, token_max = 6, last_activity_ts = 0,
              buffer = []\<rparr>"
  let ?calls = "[(1::real, ''the customer''), (2, '' calls support '')]"
  have t: "token_target ?cb \<le> token_max ?cb" by simp
  have s1: "strip ''the customer'' = ''the customer''"
    by (simp add: strip_def isspace_def)
  have s2: "strip '' calls support '' = ''calls support''"
    by (simp add: strip_def isspace_def)
  have c1: "add_tokens ''the customer'' ?cb = 1"
    by (simp add: add_tokens_def approx_token_count_def s1 split_def isspace_def)
  have a1: "add 1 ''the customer'' ?cb = (None, appended 1 ''the customer'' ?cb)"
    by (simp add: add_unfold c1)
  have c2: "add_tokens '' calls support '' (appended 1 ''the customer'' ?cb) = 3"
    by (simp add: add_tokens_def approx_token_count_def appended_def s1 s2 strip_def split_def
        isspace_def)
  have g: "token_target (appended 1 ''the customer'' ?cb) = 4"
    by (simp add: appended_def)
  have b: "below_target ?cb ?calls"
    by (simp add: c1 a1 c2 g)
  from add_below_target_emits_nothing [OF t b] b show ?thesis
    by (simp add: s1 s2)
qed


section \<open>The approximate token count\<close>

lemma three_quarters: "0.75 * real k = real_of_int (3 * int k) / real_of_int 4"
  by simp

lemma approx_token_count_words: "approx_token_count text = (3 * int (length (split text))) div 4"
  by (simp add: approx_token_count_def split_strip)

lemma approx_token_count_floor': "approx_token_count text = \<lfloor>0.75 * real (length (split text))\<rfloor>"
  unfolding approx_token_count_words three_quarters floor_divide_of_int_eq ..

text \<open>
  Claim C9, amended. The approximate token count is the number of whitespace-delimited
  words times 0.75 with the fraction dropped. Comparing this integer with an integer
  threshold decides as comparing the product itself would, so the branch \<^verbatim>\<open>add\<close> takes is
  the one the product selects.
\<close>

theorem approx_token_count_floor:
  "approx_token_count text = \<lfloor>0.75 * real (length (split text))\<rfloor>
   \<and> (n \<le> approx_token_count text) = (real_of_int n \<le> 0.75 * real (length (split text)))
   \<and> add_branch cb (approx_token_count text) =
       (if real_of_int (token_target cb) \<le> 0.75 * real (length (split text)) then SoftFlush
        else if real_of_int (token_max cb) \<le> 0.75 * real (length (split text)) then HardFlush
        else NoFlush)"
proof -
  have f: "approx_token_count text = \<lfloor>0.75 * real (length (split text))\<rfloor>"
    by (rule approx_token_count_floor')
  have g: "(m \<le> approx_token_count text) = (real_of_int m \<le> 0.75 * real (length (split text)))"
    for m
    unfolding f by (rule le_floor_iff)
  show ?thesis
    unfolding add_branch_def g [symmetric] using f by simp
qed

theorem approx_token_count_floor_witness:
  "approx_token_count ''the customer calls support today'' = 3
   \<and> \<lfloor>0.75 * real (length (split ''the customer calls support today''))\<rfloor> = 3"
  using approx_token_count_floor
    [of "''the customer calls support today''" 0
        "\<lparr>overlap_tokens = 1, token_target = 4, token_max = 6, last_activity_ts = 0,
          buffer = []\<rparr>"]
  by (simp add: split_def isspace_def)

text \<open>
  Claim C9 as stated fails: a text of one word has the count 0, and 0.75 times one is not 0.
\<close>

theorem approx_token_count_counterexample:
  "real_of_int (approx_token_count ''refund'') \<noteq> 0.75 * real (length (split ''refund''))"
  by (simp add: approx_token_count_def strip_def split_def isspace_def)

section \<open>Polling an idle buffer\<close>

text \<open>
  Claim C3 as stated fails: with an overlap of two tokens and six tokens pending, the
  first idle flush returns four tokens and keeps two, and the second returns those two.
\<close>

theorem flush_if_idle_twice_counterexample:
  "fst (flush_if_idle 21 20
     \<lparr>overlap_tokens = 2, token_target = 800, token_max = 1100, last_activity_ts = 0,
      buffer = [''we notify the customer by email'']\<rparr>) = Some ''we notify the customer''
   \<and> fst (flush_if_idle 26 20 (snd (flush_if_idle 21 20
     \<lparr>overlap_tokens = 2, token_target = 800, token_max = 1100, last_activity_ts = 0,
      buffer = [''we notify the customer by email'']\<rparr>))) = Some ''by email''"
  by (simp add: flush_if_idle_def flush_chunk_def strip_def split_def isspace_def Let_def)

lemma flush_if_idle_Some:
  assumes "flush_if_idle now idle cb = (Some seg, cb1)"
  shows "real_of_int idle < now - last_activity_ts cb" and "buffer cb \<noteq> []"
    and "flush_chunk cb = (Some seg, cb1)"
  using assms by (simp_all add: flush_if_idle_def split: if_splits)

lemma flush_if_idle_empty: "buffer cb = [] \<Longrightarrow> flush_if_idle now idle cb = (None, cb)"
  by (simp add: flush_if_idle_def)

lemma retained_tokens:
  assumes "list_all token T" and "0 < n" and "n < int (length T)"
  shows "split (join '' '' [join '' '' (drop (length T - nat n) T)]) = drop (length T - nat n) T"
    and "int (length (drop (length T - nat n) T)) = n"
    and "strip (join '' '' [join '' '' (drop (length T - nat n) T)])
         = join '' '' (drop (length T - nat n) T)"
proof -
  from assms(1) have d: "list_all token (drop (length T - nat n) T)" by (rule tokens_drop)
  then show "split (join '' '' [join '' '' (drop (length T - nat n) T)])
             = drop (length T - nat n) T"
    by (simp add: split_join_tokens)
  from assms(2,3) show "int (length (drop (length T - nat n) T)) = n" by simp
  from d show "strip (join '' '' [join '' '' (drop (length T - nat n) T)])
               = join '' '' (drop (length T - nat n) T)"
    by (simp add: strip_join_tokens)
qed

text \<open>
  Claim C3, amended. Let the first of two successive \<^verbatim>\<open>flush_if_idle\<close> calls return a
  segment. If the pending text had at most \<^verbatim>\<open>overlap_tokens\<close> tokens, or the overlap is not
  positive, the second call returns nothing. If it had more than \<^verbatim>\<open>overlap_tokens\<close> tokens
  and the overlap is positive, the first call keeps the overlap, a second call for which the
  buffer is still idle returns that overlap as a segment, and a third call returns nothing.
\<close>

theorem flush_if_idle_twice:
  assumes "flush_if_idle now1 idle cb = (Some seg, cb1)"
  shows "(int (length (pending_tokens cb)) \<le> overlap_tokens cb \<or> overlap_tokens cb \<le> 0 \<longrightarrow>
            flush_if_idle now2 idle cb1 = (None, cb1))
       \<and> (0 < overlap_tokens cb \<and> overlap_tokens cb < int (length (pending_tokens cb))
            \<and> real_of_int idle < now2 - last_activity_ts cb \<longrightarrow>
            flush_if_idle now2 idle cb1
              = (Some (join '' '' (drop (length (pending_tokens cb) - nat (overlap_tokens cb))
                                     (pending_tokens cb))),
                 cb1\<lparr>buffer := []\<rparr>)
            \<and> flush_if_idle now3 idle (cb1\<lparr>buffer := []\<rparr>) = (None, cb1\<lparr>buffer := []\<rparr>))"
proof -
  let ?T = "pending_tokens cb"
  let ?n = "overlap_tokens cb"
  note f = flush_if_idle_Some [OF assms]
  have a: "flush_if_idle now2 idle cb1 = (None, cb1)" if "int (length ?T) \<le> ?n \<or> ?n \<le> 0"
  proof -
    have "snd (flush_chunk cb) = cb\<lparr>buffer := []\<rparr>"
    proof (cases "int (length ?T) \<le> ?n")
      case True
      with f(2) show ?thesis by (simp add: flush_chunk_short)
    next
      case False
      with that f(2) show ?thesis by (simp add: flush_chunk_drains)
    qed
    with f(3) have "buffer cb1 = []" by simp
    then show ?thesis by (rule flush_if_idle_empty)
  qed
  have b: "flush_if_idle now2 idle cb1
              = (Some (join '' '' (drop (length ?T - nat ?n) ?T)), cb1\<lparr>buffer := []\<rparr>)
           \<and> flush_if_idle now3 idle (cb1\<lparr>buffer := []\<rparr>) = (None, cb1\<lparr>buffer := []\<rparr>)"
    if "0 < ?n" and "?n < int (length ?T)" and "real_of_int idle < now2 - last_activity_ts cb"
  proof -
    let ?tail = "join '' '' (drop (length ?T - nat ?n) ?T)"
    from flush_chunk_retains [OF that(1,2)] f(3) have cb1: "cb1 = cb\<lparr>buffer := [?tail]\<rparr>"
      by simp
    note r = retained_tokens [OF pending_tokens_tokens that(1,2)]
    have p: "pending_tokens cb1 = drop (length ?T - nat ?n) ?T"
      unfolding cb1 using r(1) by (simp add: pending_tokens_def)
    have "int (length (pending_tokens cb1)) \<le> overlap_tokens cb1"
      unfolding p using r(2) by (simp add: cb1)
    moreover have "buffer cb1 \<noteq> []" by (simp add: cb1)
    ultimately have "flush_chunk cb1 = (Some (strip (join '' '' (buffer cb1))), cb1\<lparr>buffer := []\<rparr>)"
      by (intro flush_chunk_short)
    moreover have "strip (join '' '' (buffer cb1)) = ?tail"
      using r(3) by (simp add: cb1 pending_tokens_def)
    ultimately have "flush_chunk cb1 = (Some ?tail, cb1\<lparr>buffer := []\<rparr>)" by simp
    with that(3) have "flush_if_idle now2 idle cb1 = (Some ?tail, cb1\<lparr>buffer := []\<rparr>)"
      by (simp add: flush_if_idle_def cb1)
    then show ?thesis by (simp add: flush_if_idle_empty)
  qed
  from a b show ?thesis by blast
qed


theorem flush_if_idle_twice_witness:
  "flush_if_idle 21 20
     \<lparr>overlap_tokens = 120, token_target = 800, token_max = 1100, last_activity_ts = 0,
      buffer = [''we notify the customer'']\<rparr>
   = (Some ''we notify the customer'',
      \<lparr>overlap_tokens = 120, token_target = 800, token_max = 1100, last_activity_ts = 0,
       buffer = []\<rparr>)
   \<and> flush_if_idle 26 20
       \<lparr>overlap_tokens = 120, token_target = 800, token_max = 1100, last_activity_ts = 0,
        buffer = []\<rparr>
     = (None,
        \<lparr>overlap_tokens = 120, token_target = 800, token_max = 1100, last_activity_ts = 0,
         buffer = []\<rparr>)"
proof -
  let ?cb = "\<lparr>overlap_tokens = 120, token_target = 800, token_max = 1100, last_activity_ts = 0,
              buffer = [''we notify the customer'']\<rparr>"
  let ?cb1 = "\<lparr>overlap_tokens = 120, token_target = 800, token_max = 1100,
               last_activity_ts = 0, buffer = ([]::string list)\<rparr>"
  have 1: "flush_if_idle 21 20 ?cb = (Some ''we notify the customer'', ?cb1)"
    by (simp add: flush_if_idle_def flush_chunk_def strip_def split_def isspace_def Let_def)
  have 2: "int (length (pending_tokens ?cb)) \<le> overlap_tokens ?cb"
    by (simp add: pending_tokens_def split_def isspace_def)
  from flush_if_idle_twice [OF 1, of 26] 2 have "flush_if_idle 26 20 ?cb1 = (None, ?cb1)"
    by blast
  with 1 show ?thesis by simp
qed

section \<open>The heuristic classifier\<close>

lemma startswith_prefix: "startswith s p = prefix p s"
proof
  assume "startswith s p"
  then have "s = p @ drop (length p) s"
    by (metis append_take_drop_id startswith_def)
  then show "prefix p s" by (rule prefixI)
next
  assume "prefix p s"
  then obtain zs where "s = p @ zs" by (auto simp: prefix_def)
  then show "startswith s p" by (simp add: startswith_def)
qed

lemma endswith_char: "t \<noteq> [] \<Longrightarrow> endswith t [c] = (last t = c)"
proof (induction t rule: rev_induct)
  case Nil
  then show ?case by simp
next
  case (snoc x xs)
  show ?case by (simp add: endswith_def)
qed

lemma startswith_q_starts:
  "startswith_any t q_starts =
     (list_ex (\<lambda>w. prefix (w @ '' '') t) followed_by_space
      \<or> prefix ''please explain'' t \<or> prefix ''walk me through'' t)"
  unfolding startswith_any_def q_starts_def followed_by_space_def startswith_prefix
  by (simp only: list_ex_Cons_iff list_ex_Nil_iff append.simps) blast

lemma startswith_imperatives:
  "startswith_any t [''describe '', ''outline '', ''explain '', ''detail '', ''tell me '']
   = list_ex (\<lambda>w. prefix (w @ '' '') t) imperative_verbs"
  unfolding startswith_any_def imperative_verbs_def startswith_prefix
  by (simp only: list_ex_Cons_iff list_ex_Nil_iff append.simps simp_thms)

text \<open>
  Claim C8, amended. The heuristic classifier reads the text trimmed and lower-cased:
  ANSWER if that is empty; QUESTION if it ends with a question mark; QUESTION if it starts
  with one of how, what, when, where, why, who, which, can, could, would, do, does, did
  followed by a space, or with "please explain" or "walk me through"; QUESTION if it starts
  with one of describe, outline, explain, detail, "tell me" followed by a space; and ANSWER
  otherwise.
\<close>

theorem heuristic_role_classify_spaced:
  "heuristic_role_classify text = spaced_heuristic_role text"
proof (cases "lower (strip text) = []")
  case True
  then show ?thesis by (simp add: heuristic_role_classify_def spaced_heuristic_role_def)
next
  case False
  then show ?thesis
    unfolding heuristic_role_classify_def spaced_heuristic_role_def Let_def
      startswith_q_starts startswith_imperatives
    by (simp add: endswith_char)
qed

lemma lower_evals:
  "lower (strip '' How do refunds work '') = ''how do refunds work''"
  "lower (strip ''However we proceed'') = ''however we proceed''"
  "lower (strip ''how'') = ''how''"
  by code_simp+

theorem heuristic_role_classify_spaced_witness:
  "heuristic_role_classify '' How do refunds work '' = QUESTION
   \<and> heuristic_role_classify ''However we proceed'' = ANSWER"
  using heuristic_role_classify_spaced [of "'' How do refunds work ''"]
    heuristic_role_classify_spaced [of "''However we proceed''"]
  by (simp add: spaced_heuristic_role_def lower_evals followed_by_space_def imperative_verbs_def)

text \<open>
  Claim C8 as stated fails: the text "how" starts with the interrogative word "how", and
  the classifier returns ANSWER, because the word is not followed by a space.
\<close>

theorem heuristic_role_classify_counterexample:
  "spec_heuristic_role ''how'' = QUESTION \<and> heuristic_role_classify ''how'' = ANSWER"
  by (simp add: spec_heuristic_role_def interrogative_words_def heuristic_role_classify_def
      lower_evals endswith_def startswith_any_def startswith_def q_starts_def)

section \<open>The completion helper\<close>

lemma llm_json_completion_raises:
  "complete p sp up = Inl e \<Longrightarrow> llm_json_completion p sp up = Inl e"
  by (simp add: llm_json_completion_def)

lemma llm_json_completion_unparseable:
  "complete p sp up = Inr content \<Longrightarrow> unparseable p content \<Longrightarrow>
   llm_json_completion p sp up = Inr (JObj [])"
  by (simp add: llm_json_completion_def unparseable_def Let_def)

lemma response_text_missing: "response_text None = ''{}''" "response_text (Some []) = ''{}''"
  by (simp_all add: response_text_def strip_def isspace_def startswith_def fence_def)

lemma llm_json_completion_missing:
  assumes "complete p sp up = Inr content" and "content = None \<or> content = Some []"
    and "loads p ''{}'' = Some (JObj [])"
  shows "llm_json_completion p sp up = Inr (JObj [])"
  using assms by (auto simp: llm_json_completion_def response_text_missing)

lemma classify_role_empty_object:
  assumes "ROLE_CLASSIFIER_MODE \<noteq> ''heuristic''"
    and "llm_json_completion p CLASSIFY_SYSTEM text = Inr (JObj [])"
  shows "classify_role p ROLE_CLASSIFIER_MODE text = Inr ANSWER"
  using assms by (simp add: classify_role_def upper_def upper_char_def)

text \<open>
  Claim C7, amended. In the external mode, \<^verbatim>\<open>classify_role\<close> returns ANSWER when the
  completion call returns and its content is missing or empty, or cannot be parsed,
  neither as a whole nor from its first opening to its last closing brace. An error
  raised by the completion call is not caught: it is raised by \<^verbatim>\<open>classify_role\<close> too.
\<close>

theorem classify_role_degrades:
  assumes "ROLE_CLASSIFIER_MODE \<noteq> ''heuristic''"
  shows "(complete p CLASSIFY_SYSTEM text = Inr content
            \<and> ((content = None \<or> content = Some []) \<and> loads p ''{}'' = Some (JObj [])
                \<or> unparseable p content) \<longrightarrow>
          classify_role p ROLE_CLASSIFIER_MODE text = Inr ANSWER)
       \<and> (complete p CLASSIFY_SYSTEM text = Inl e \<longrightarrow>
          classify_role p ROLE_CLASSIFIER_MODE text = Inl e)"
proof (intro conjI impI)
  assume a: "complete p CLASSIFY_SYSTEM text = Inr content
            \<and> ((content = None \<or> content = Some []) \<and> loads p ''{}'' = Some (JObj [])
                \<or> unparseable p content)"
  then have "llm_json_completion p CLASSIFY_SYSTEM text = Inr (JObj [])"
    using llm_json_completion_missing [of p CLASSIFY_SYSTEM "text" content]
      llm_json_completion_unparseable [of p CLASSIFY_SYSTEM "text" content]
    by blast
  with assms show "classify_role p ROLE_CLASSIFIER_MODE text = Inr ANSWER"
    by (rule classify_role_empty_object)
next
  assume "complete p CLASSIFY_SYSTEM text = Inl e"
  then have "llm_json_completion p CLASSIFY_SYSTEM text = Inl e"
    by (rule llm_json_completion_raises)
  with assms show "classify_role p ROLE_CLASSIFIER_MODE text = Inl e"
    by (simp add: classify_role_def)
qed

lemma unparseable_example: "unparseable (answering (Some ''I think {it is} a question'')) (Some ''I think {it is} a question'')"
  by (simp add: unparseable_def response_text_def Let_def answering_def example_loads_def
      strip_def isspace_def startswith_def fence_def find_char_def rfind_char_def slice_def)

theorem classify_role_degrades_witness:
  "classify_role (answering None) ''llm'' ''What happens next?'' = Inr ANSWER
   \<and> classify_role (answering (Some ''I think {it is} a question'')) ''llm''
       ''What happens next?'' = Inr ANSWER"
proof -
  have m: "''llm'' \<noteq> ''heuristic''" by simp
  have 1: "classify_role (answering None) ''llm'' ''What happens next?'' = Inr ANSWER"
    using classify_role_degrades [OF m, of "answering None" "''What happens next?''" None]
    by (simp add: answering_def example_loads_def)
  have 2: "classify_role (answering (Some ''I think {it is} a question'')) ''llm''
       ''What happens next?'' = Inr ANSWER"
    using classify_role_degrades [OF m, of "answering (Some ''I think {it is} a question'')"
        "''What happens next?''" "Some ''I think {it is} a question''"]
      unparseable_example
    by (simp add: answering_def)
  from 1 2 show ?thesis by simp
qed

text \<open>
  Claim C7 as stated fails: when the completion call raises, the classification raises.
\<close>

theorem classify_role_counterexample:
  "classify_role failing ''llm'' ''What happens next?'' = Inl CompletionError"
  by (simp add: classify_role_def llm_json_completion_def failing_def)

section \<open>Merging into the process memory\<close>

lemma backfill_update:
  "dict_update empty_process_memory (map (\<lambda>(k, v). (k, dict_get m k v)) empty_process_memory)
   = map (\<lambda>(k, v). (k, dict_get m k v)) empty_process_memory"
  by (simp add: dict_update_def empty_process_memory_def)

lemma merge_models_result:
  assumes "llm_json_completion p MERGE_SYSTEM (merge_prompt p a b) = Inr (JObj m)"
  shows "merge_models p a b = Inr (map (\<lambda>(k, v). (k, dict_get m k v)) empty_process_memory)"
  using assms by (simp add: merge_models_def backfill_update)

lemma merge_models_returns:
  assumes "merge_models p a b = Inr r"
  obtains m where "llm_json_completion p MERGE_SYSTEM (merge_prompt p a b) = Inr (JObj m)"
  using assms by (auto simp: merge_models_def Let_def split: sum.splits json.splits)

lemma map_of_backfill:
  "map_of (map (\<lambda>(k, v). (k, dict_get m k v)) d) k = map_option (dict_get m k) (map_of d k)"
  by (induction d) auto

lemma keys_backfill: "map fst (map (\<lambda>(k, v). (k, dict_get m k v)) d) = map fst d"
  by (induction d) auto

text \<open>
  Claim C6. Whenever the merge oracle returns a JSON object, whatever fields it has or
  lacks, \<^verbatim>\<open>merge_models\<close> returns a model whose fields are exactly the fields of the
  canonical empty schema, in its order; and every model \<^verbatim>\<open>merge_models\<close> returns has
  exactly these fields.
\<close>

theorem merge_models_schema:
  "(llm_json_completion p MERGE_SYSTEM (merge_prompt p a b) = Inr (JObj m) \<longrightarrow>
      (\<exists>r. merge_models p a b = Inr r \<and> map fst r = map fst empty_process_memory))
   \<and> (merge_models p a b = Inr r' \<longrightarrow> map fst r' = map fst empty_process_memory)"
proof (intro conjI impI)
  assume "llm_json_completion p MERGE_SYSTEM (merge_prompt p a b) = Inr (JObj m)"
  then have "merge_models p a b = Inr (map (\<lambda>(k, v). (k, dict_get m k v)) empty_process_memory)"
    by (rule merge_models_result)
  moreover have "map fst (map (\<lambda>(k, v). (k, dict_get m k v)) empty_process_memory)
                 = map fst empty_process_memory"
    by (rule keys_backfill)
  ultimately show "\<exists>r. merge_models p a b = Inr r \<and> map fst r = map fst empty_process_memory"
    by (intro exI conjI)
next
  assume r: "merge_models p a b = Inr r'"
  then obtain m' where "llm_json_completion p MERGE_SYSTEM (merge_prompt p a b) = Inr (JObj m')"
    by (rule merge_models_returns)
  then have "merge_models p a b = Inr (map (\<lambda>(k, v). (k, dict_get m' k v)) empty_process_memory)"
    by (rule merge_models_result)
  with r have "r' = map (\<lambda>(k, v). (k, dict_get m' k v)) empty_process_memory"
    by (simp only: sum.inject)
  then show "map fst r' = map fst empty_process_memory"
    by (simp only: keys_backfill)
qed

lemma answering_empty:
  "llm_json_completion (answering (Some ''{}'')) MERGE_SYSTEM up = Inr (JObj [])"
  by (simp add: llm_json_completion_def answering_def example_loads_def response_text_def
      strip_def isspace_def startswith_def fence_def)

theorem merge_models_schema_witness:
  "\<exists>r. merge_models (answering (Some ''{}'')) empty_process_memory (JObj []) = Inr r
       \<and> map fst r = map fst empty_process_memory"
  using merge_models_schema
    [of "answering (Some ''{}'')" empty_process_memory "JObj []" "[]"] answering_empty
  by simp

text \<open>
  Claim C1, amended. When the merge oracle returns a JSON object, the model returned by
  \<^verbatim>\<open>merge_models\<close> takes each field present in that object from it and sets each
  field the object omits to the value the canonical empty schema gives it (null, the empty
  text or the empty list), whatever the prior model held under that field.
\<close>

theorem merge_models_backfills_defaults:
  assumes "llm_json_completion p MERGE_SYSTEM (merge_prompt p a b) = Inr (JObj m)"
  shows "\<exists>r. merge_models p a b = Inr r
           \<and> (map_of m k = None \<longrightarrow> map_of r k = map_of empty_process_memory k)
           \<and> (k \<in> set (map fst empty_process_memory) \<and> map_of m k = Some x \<longrightarrow>
                map_of r k = Some x)"
proof -
  let ?r = "map (\<lambda>(k, v). (k, dict_get m k v)) empty_process_memory"
  have 1: "map_of ?r k = map_of empty_process_memory k" if "map_of m k = None"
    unfolding map_of_backfill using that
    by (cases "map_of empty_process_memory k") (simp_all add: dict_get_def)
  have 2: "map_of ?r k = Some x"
    if "k \<in> set (map fst empty_process_memory)" and "map_of m k = Some x"
  proof -
    from that(1) obtain v where "map_of empty_process_memory k = Some v"
      by (metis map_of_eq_None_iff not_Some_eq set_map)
    with that(2) show ?thesis unfolding map_of_backfill by (simp add: dict_get_def)
  qed
  show ?thesis
  proof (intro exI conjI impI)
    show "merge_models p a b = Inr ?r" using assms by (rule merge_models_result)
    show "map_of ?r k = map_of empty_process_memory k" if "map_of m k = None"
      using that by (rule 1)
    show "map_of ?r k = Some x"
      if "k \<in> set (map fst empty_process_memory) \<and> map_of m k = Some x"
      using that 2 by (simp only:)
  qed
qed

theorem merge_models_backfills_defaults_witness:
  "\<exists>r. merge_models (answering (Some ''{}''))
          (AList.update ''title'' (JStr ''Refunds'') empty_process_memory) (JObj []) = Inr r
       \<and> map_of r ''title'' = Some JNull"
  using merge_models_backfills_defaults
    [of "answering (Some ''{}'')" "AList.update ''title'' (JStr ''Refunds'') empty_process_memory"
        "JObj []" "[]" "''title''"] answering_empty
  by (simp add: empty_process_memory_def)

text \<open>
  Claim C1 as stated fails: a prior model with a title, merged by an oracle that answers
  with the empty object, becomes the empty model, and the title is lost.
\<close>

theorem merge_models_counterexample:
  "map_of (AList.update ''title'' (JStr ''Refunds'') empty_process_memory) ''title''
     = Some (JStr ''Refunds'')
   \<and> merge_models (answering (Some ''{}''))
       (AList.update ''title'' (JStr ''Refunds'') empty_process_memory) (JObj [])
     = Inr empty_process_memory
   \<and> map_of empty_process_memory ''title'' = Some JNull"
  by (simp add: merge_models_def answering_empty dict_update_def dict_get_def
      empty_process_memory_def)

section \<open>Further behaviour of the external classification\<close>

text \<open>
  A response that parses to a JSON array is neither missing nor unparseable;
  \<^verbatim>\<open>res.get\<close> raises on it. A response that parses to an object with the role
  QUESTION in any letter case is classified QUESTION.
\<close>

lemma classify_role_array_example:
  "classify_role (answering (Some ''[]'')) ''llm'' ''What happens next?'' = Inl AttributeError"
  by (simp add: classify_role_def llm_json_completion_def answering_def example_loads_def
      response_text_def strip_def isspace_def startswith_def fence_def)

lemma classify_role_object:
  assumes "ROLE_CLASSIFIER_MODE \<noteq> ''heuristic''"
    and "llm_json_completion p CLASSIFY_SYSTEM text = Inr (JObj d)"
    and "map_of d ''role'' = Some (JStr s)"
  shows "classify_role p ROLE_CLASSIFIER_MODE text
         = Inr (if upper s = ''QUESTION'' then QUESTION else ANSWER)"
proof (cases "s = []")
  case True
  with assms show ?thesis by (simp add: classify_role_def upper_def upper_char_def)
next
  case False
  with assms show ?thesis by (simp add: classify_role_def)
qed

end
